theory Spec2Isabelle
  imports Complex_Main
begin

section \<open>The map panel: \<open>frontend/components/GoogleMapDisplay.tsx\<close>\<close>

text \<open>
  Coordinates are JavaScript numbers. The component never computes with them: it only
  passes them on, so they are modelled as reals and the two literals of the source are
  written as the source writes them.
\<close>

record latlng =
  lat :: real
  lng :: real

text \<open>The fields of \<open>Place\<close> and \<open>MapsData\<close> that the render function reads.\<close>

record place =
  name :: string
  location :: latlng

record maps_data =
  places :: "place list option"
  map_center :: "latlng option"

definition defaultCenter :: latlng where
  "defaultCenter = \<lparr>lat = 40.7128, lng = - 74.0060\<rparr>"

text \<open>
  \<open>mapsData?.map_center\<close>: undefined when \<open>mapsData\<close> is null or undefined, the field
  otherwise.
\<close>

definition chain_map_center :: "maps_data option \<Rightarrow> latlng option" where
  "chain_map_center mapsData = (case mapsData of None \<Rightarrow> None | Some d \<Rightarrow> map_center d)"

text \<open>
  \<open>a || b\<close> on values that are an object or null/undefined: an object is truthy, so
  the left operand is the result exactly when it is present.
\<close>

definition js_or :: "'a option \<Rightarrow> 'a option \<Rightarrow> 'a option" where
  "js_or a b = (case a of Some x \<Rightarrow> Some x | None \<Rightarrow> b)"

definition js_or_default :: "'a option \<Rightarrow> 'a \<Rightarrow> 'a" where
  "js_or_default a d = (case a of Some x \<Rightarrow> x | None \<Rightarrow> d)"

text \<open>\<open>center={mapsData?.map_center || userLocation || defaultCenter}\<close>\<close>

definition center_prop :: "maps_data option \<Rightarrow> latlng option \<Rightarrow> latlng" where
  "center_prop mapsData userLocation =
     js_or_default (js_or (chain_map_center mapsData) userLocation) defaultCenter"

text \<open>
  \<open>zoom={mapsData?.places?.length ? 13 : 11}\<close>: the length is truthy when it is a
  number other than 0.
\<close>

definition zoom_prop :: "maps_data option \<Rightarrow> nat" where
  "zoom_prop mapsData =
     (case mapsData of
        None \<Rightarrow> 11
      | Some d \<Rightarrow> (case places d of None \<Rightarrow> 11 | Some ps \<Rightarrow> if length ps \<noteq> 0 then 13 else 11))"

text \<open>
  What a render of the component gives, with the two early returns first, in the source's
  order. When the loader reports \<open>loadError\<close> it returns the error panel. While
  \<open>isLoaded\<close> is false it builds the spinner from \<open>Loader2\<close>, a name that the file neither
  imports nor declares (the import from \<open>lucide-react\<close> lists \<open>MapPin\<close>, \<open>ExternalLink\<close>,
  \<open>Star\<close>, \<open>Clock\<close> and \<open>DollarSign\<close>): reading it throws a \<open>ReferenceError\<close>, and the render
  returns nothing. Otherwise it returns the \<open>GoogleMap\<close> element with its \<open>center\<close> and
  \<open>zoom\<close> properties.
\<close>

datatype render_error = ReferenceError string

datatype map_view = LoadErrorView | GoogleMapView latlng nat

definition GoogleMapDisplay ::
  "bool \<Rightarrow> bool \<Rightarrow> maps_data option \<Rightarrow> latlng option \<Rightarrow> render_error + map_view" where
  "GoogleMapDisplay isLoaded loadError mapsData userLocation =
     (if loadError then Inr LoadErrorView
      else if \<not> isLoaded then Inl (ReferenceError ''Loader2'')
      else Inr (GoogleMapView (center_prop mapsData userLocation) (zoom_prop mapsData)))"

text \<open>The \<open>center\<close> property of what was rendered, when it is the map.\<close>

fun view_center :: "render_error + map_view \<Rightarrow> latlng option" where
  "view_center (Inr (GoogleMapView c z)) = Some c"
| "view_center (Inr LoadErrorView) = None"
| "view_center (Inl err) = None"

text \<open>
  The effect that runs when \<open>map\<close>, \<open>mapsData\<close> or \<open>isLoaded\<close> change, reduced to the calls it
  makes on the map object that move or zoom it (the markers it creates are left out). It
  returns at once unless the map is there, the loader has finished and there is maps
  data. With two or more places it fits the bounds of their locations and arms a
  one-time listener that caps the zoom at 16; with one place it centres on that place at
  zoom 15; with no place and a \<open>map_center\<close> it centres there at zoom 13.
\<close>

datatype map_command =
    FitBounds "latlng list"
  | CapZoomOnce nat
  | SetCenter latlng
  | SetZoom nat

definition update_map :: "bool \<Rightarrow> bool \<Rightarrow> maps_data option \<Rightarrow> map_command list" where
  "update_map map_present isLoaded mapsData =
     (if \<not> map_present \<or> \<not> isLoaded then []
      else (case mapsData of
              None \<Rightarrow> []
            | Some d \<Rightarrow>
                (case places d of
                   Some (p # ps) \<Rightarrow>
                     (if length (p # ps) > 1 then [FitBounds (map location (p # ps)), CapZoomOnce 16]
                      else [SetCenter (location p), SetZoom 15])
                 | _ \<Rightarrow>
                     (case map_center d of
                        Some c \<Rightarrow> [SetCenter c, SetZoom 13]
                      | None \<Rightarrow> []))))"


section \<open>The socket hook: \<open>frontend/hooks/useSocket.ts\<close>\<close>

text \<open>
  The hook keeps the counter \<open>reconnectAttempts\<close> in a ref and the flag \<open>isConnected\<close>
  in React state. Each socket event runs one handler; a handler changes the state and
  asks for effects: a toast, an immediate \<open>newSocket.connect()\<close>, or a
  \<open>setTimeout\<close> that calls \<open>newSocket.connect()\<close> after a delay in milliseconds.
  The counter is a JavaScript number that only ever holds small whole numbers, a \<open>nat\<close>
  here.
\<close>

record socket_state =
  reconnectAttempts :: nat
  isConnected :: bool

datatype socket_event = Connect | Disconnect string | ConnectError | Reconnect

datatype socket_effect =
    ToastConnected
  | ToastReconnected
  | ToastRetrying nat nat
  | ToastGiveUp
  | ConnectNow
  | SetTimeoutConnect nat

definition maxReconnectAttempts :: nat where
  "maxReconnectAttempts = 5"

definition initial_socket_state :: socket_state where
  "initial_socket_state = \<lparr>reconnectAttempts = 0, isConnected = False\<rparr>"

definition on_connect :: "socket_state \<Rightarrow> socket_state \<times> socket_effect list" where
  "on_connect s = (s\<lparr>isConnected := True, reconnectAttempts := 0\<rparr>, [ToastConnected])"

definition on_disconnect :: "string \<Rightarrow> socket_state \<Rightarrow> socket_state \<times> socket_effect list" where
  "on_disconnect reason s =
     (s\<lparr>isConnected := False\<rparr>,
      if reason = ''io server disconnect'' then [ConnectNow] else [])"

definition on_connect_error :: "socket_state \<Rightarrow> socket_state \<times> socket_effect list" where
  "on_connect_error s =
     (let n = reconnectAttempts s + 1;
          s' = s\<lparr>isConnected := False, reconnectAttempts := n\<rparr>
      in if n \<le> maxReconnectAttempts
         then (s', [ToastRetrying n maxReconnectAttempts, SetTimeoutConnect (2 ^ n * 1000)])
         else (s', [ToastGiveUp]))"

definition on_reconnect :: "socket_state \<Rightarrow> socket_state \<times> socket_effect list" where
  "on_reconnect s = (s\<lparr>reconnectAttempts := 0\<rparr>, [ToastReconnected])"

fun handle_event :: "socket_event \<Rightarrow> socket_state \<Rightarrow> socket_state \<times> socket_effect list" where
  "handle_event Connect s = on_connect s"
| "handle_event (Disconnect reason) s = on_disconnect reason s"
| "handle_event ConnectError s = on_connect_error s"
| "handle_event Reconnect s = on_reconnect s"

text \<open>The handlers run one after the other; the effects are collected in order.\<close>

fun run_events :: "socket_event list \<Rightarrow> socket_state \<Rightarrow> socket_state \<times> socket_effect list" where
  "run_events [] s = (s, [])"
| "run_events (e # es) s =
     (case handle_event e s of
        (s', fx) \<Rightarrow> (case run_events es s' of (s'', fx') \<Rightarrow> (s'', fx @ fx')))"

text \<open>The delays of the reconnects that a list of effects schedules, in order.\<close>

fun scheduled_delays :: "socket_effect list \<Rightarrow> nat list" where
  "scheduled_delays [] = []"
| "scheduled_delays (SetTimeoutConnect d # fx) = d # scheduled_delays fx"
| "scheduled_delays (_ # fx) = scheduled_delays fx"


section \<open>The chat panel: \<open>frontend/components/ChatInterface.tsx\<close>\<close>

text \<open>
  A JavaScript string is a sequence of UTF-16 code units, each a number below 65536.
  \<open>String.prototype.trim\<close> removes, at both ends, the code units that ECMAScript calls
  white space or line terminators: U+0009 to U+000D, U+0020, U+00A0, U+1680, U+2000 to
  U+200A, U+2028, U+2029, U+202F, U+205F, U+3000 and U+FEFF.
\<close>

type_synonym js_string = "nat list"

definition is_trim_space :: "nat \<Rightarrow> bool" where
  "is_trim_space c =
     (c \<in> set [9, 10, 11, 12, 13, 32, 160, 5760, 8232, 8233, 8239, 8287, 12288, 65279]
      \<or> (8192 \<le> c \<and> c \<le> 8202))"

definition trim :: "js_string \<Rightarrow> js_string" where
  "trim s = rev (dropWhile is_trim_space (rev (dropWhile is_trim_space s)))"

datatype role = User | Assistant

text \<open>
  \<open>Message\<close>. The id is the template \<open>msg_${Date.now()}\<close>: the field holds the clock
  reading. A user message carries no \<open>mapsData\<close>.
\<close>

record message =
  msg_id :: nat
  msg_content :: js_string
  msg_role :: role
  msg_timestamp :: js_string
  msg_mapsData :: "maps_data option"

text \<open>The object that \<open>socket.emit('message', ...)\<close> sends.\<close>

record chat_payload =
  payload_message :: js_string
  payload_conversation_id :: js_string
  payload_user_id :: string
  payload_location :: "latlng option"

text \<open>
  What a send reads from its surroundings: whether \<open>socket\<close> is non-null and
  \<open>isConnected\<close> is true (both from \<open>useSocket\<close>), \<open>sendMessageMutation.isPending\<close>, the
  \<open>conversationId\<close> property, the location from \<open>useGeolocation\<close>, and the two clock
  readings \<open>Date.now()\<close> and \<open>new Date().toISOString()\<close>.
\<close>

record chat_env =
  env_socket :: bool
  env_isConnected :: bool
  env_isPending :: bool
  env_conversationId :: js_string
  env_userLocation :: "latlng option"
  env_now :: nat
  env_iso :: js_string

text \<open>
  The component's state that a send touches, and the list of what was emitted on the
  socket so far.
\<close>

record chat_state =
  messages :: "message list"
  inputValue :: js_string
  isTyping :: bool
  emitted :: "chat_payload list"

text \<open>What the handlers do, in the order in which they do it.\<close>

datatype chat_effect =
    AppendMessage message
  | SetInputValue js_string
  | SetIsTyping bool
  | SocketEmit chat_payload
  | ToastError string
  | ConsoleError string

definition userMessage :: "chat_env \<Rightarrow> js_string \<Rightarrow> message" where
  "userMessage env m =
     \<lparr>msg_id = env_now env, msg_content = m, msg_role = User,
      msg_timestamp = env_iso env, msg_mapsData = None\<rparr>"

definition outgoing :: "chat_env \<Rightarrow> js_string \<Rightarrow> chat_payload" where
  "outgoing env m =
     \<lparr>payload_message = m, payload_conversation_id = env_conversationId env,
      payload_user_id = ''user_123'', payload_location = env_userLocation env\<rparr>"

text \<open>
  \<open>mutationFn\<close>: the guard throws before anything else happens (\<open>Inl\<close> is the thrown
  error's message); otherwise the four statements run in the source's order.
\<close>

definition mutationFn :: "chat_env \<Rightarrow> js_string \<Rightarrow> string + chat_effect list" where
  "mutationFn env m =
     (if \<not> env_socket env \<or> \<not> env_isConnected env then Inl ''Not connected to server''
      else Inr [AppendMessage (userMessage env m), SetInputValue [], SetIsTyping True,
                SocketEmit (outgoing env m)])"

definition onError :: "chat_effect list" where
  "onError = [SetIsTyping False, ToastError ''Failed to send message'',
              ConsoleError ''Send message error:'']"

text \<open>
  \<open>mutateAsync\<close> runs \<open>mutationFn\<close>; when it throws, the \<open>onError\<close> callback runs and the
  returned promise rejects with the error.
\<close>

definition mutateAsync :: "chat_env \<Rightarrow> js_string \<Rightarrow> chat_effect list \<times> (string + unit)" where
  "mutateAsync env m =
     (case mutationFn env m of
        Inl err \<Rightarrow> (onError, Inl err)
      | Inr fx \<Rightarrow> (fx, Inr ()))"

text \<open>
  \<open>handleSendMessage\<close>: an empty string is falsy, so \<open>!message\<close> is \<open>message = []\<close>. The
  \<open>catch\<close> logs the rejection.
\<close>

definition handleSendMessage :: "chat_env \<Rightarrow> chat_state \<Rightarrow> chat_effect list" where
  "handleSendMessage env st =
     (let m = trim (inputValue st)
      in if m = [] \<or> env_isPending env then []
         else (case mutateAsync env m of
                 (fx, Inl err) \<Rightarrow> fx @ [ConsoleError ''Error sending message:'']
               | (fx, Inr u) \<Rightarrow> fx))"

fun apply_effect :: "chat_state \<Rightarrow> chat_effect \<Rightarrow> chat_state" where
  "apply_effect st (AppendMessage msg) = st\<lparr>messages := messages st @ [msg]\<rparr>"
| "apply_effect st (SetInputValue v) = st\<lparr>inputValue := v\<rparr>"
| "apply_effect st (SetIsTyping b) = st\<lparr>isTyping := b\<rparr>"
| "apply_effect st (SocketEmit p) = st\<lparr>emitted := emitted st @ [p]\<rparr>"
| "apply_effect st (ToastError t) = st"
| "apply_effect st (ConsoleError t) = st"

definition send :: "chat_env \<Rightarrow> chat_state \<Rightarrow> chat_state" where
  "send env st = foldl apply_effect st (handleSendMessage env st)"

fun is_emit :: "chat_effect \<Rightarrow> bool" where
  "is_emit (SocketEmit p) = True"
| "is_emit _ = False"


section \<open>Sliding-window admission control (specification, section 4.1)\<close>

text \<open>
  The rate limiter belongs to the repository's backend; the frontend sources and the
  documents at hand do not contain it. The definitions of this section follow the
  specification's words. Instants and durations are whole numbers of milliseconds.
\<close>

text \<open>
  Modelled from the spec: the result of \<open>admit\<close>, \<open>Allowed | Rejected(retryAfter)\<close>; the
  rate limiter's own result type is missing. The specification defines \<open>retryAfter\<close>
  from the oldest timestamp and says nothing for the case that none remains (only
  possible when the limit is 0): \<open>None\<close> there.
\<close>

datatype admission = Allowed | Rejected "int option"

text \<open>
  Modelled from the spec: the configuration that the rate limiter reads, the window size
  \<open>W\<close> and the limit \<open>L\<close>; the rate limiter's settings are missing.
\<close>

record admission_config =
  window_size :: int
  limit :: nat

text \<open>
  Modelled from the spec: "prune timestamps older than \<open>now - W\<close>"; the rate limiter's
  pruning step is missing. A timestamp is older than \<open>now - W\<close> when it is less.
\<close>

definition prune :: "int \<Rightarrow> int \<Rightarrow> int list \<Rightarrow> int list" where
  "prune W now ts = filter (\<lambda>t. now - W \<le> t) ts"

text \<open>
  Modelled from the spec: "the oldest timestamp", the least of those that remain; the
  rate limiter's computation is missing.
\<close>

fun oldest :: "int list \<Rightarrow> int option" where
  "oldest [] = None"
| "oldest (t # ts) = Some (fold min ts t)"

text \<open>
  Modelled from the spec: "compute \<open>retryAfter\<close> as the time until the oldest timestamp
  exits the window"; the rate limiter's computation is missing. The timestamp \<open>t\<close> is in
  the window of every instant up to \<open>t + W\<close>.
\<close>

definition retryAfter :: "int \<Rightarrow> int \<Rightarrow> int list \<Rightarrow> int option" where
  "retryAfter W now ts = map_option (\<lambda>t. t + W - now) (oldest ts)"

text \<open>
  Modelled from the spec: one call of \<open>admit\<close> on one identity's \<open>AdmissionWindow\<close>: "prune
  timestamps older than \<open>now - W\<close>; if remaining count \<open>< L\<close>, record \<open>now\<close> and return
  Allowed; else compute \<open>retryAfter\<close> [...] and return Rejected without recording"; the
  rate limiter's check is missing.
\<close>

definition admit_window :: "admission_config \<Rightarrow> int list \<Rightarrow> int \<Rightarrow> int list \<times> admission" where
  "admit_window cfg ts now =
     (let kept = prune (window_size cfg) now ts
      in if length kept < limit cfg then (kept @ [now], Allowed)
         else (kept, Rejected (retryAfter (window_size cfg) now kept)))"

text \<open>
  Modelled from the spec: the state "partitioned by identity", one timestamp sequence
  per identity, none yet for an identity that never called; the rate limiter's store is
  missing.
\<close>

type_synonym 'i admission_state = "'i \<rightharpoonup> int list"

text \<open>
  Modelled from the spec: the timestamps of one identity, "pruned lazily on each check",
  empty for an identity without a window; the rate limiter's lookup is missing.
\<close>

definition window_of :: "'i admission_state \<Rightarrow> 'i \<Rightarrow> int list" where
  "window_of st i = (case st i of None \<Rightarrow> [] | Some ts \<Rightarrow> ts)"

text \<open>
  Modelled from the spec: \<open>admit(identity, now)\<close>, which reads and writes the window of
  that identity only; the rate limiter's entry point is missing.
\<close>

definition admit ::
  "admission_config \<Rightarrow> 'i admission_state \<Rightarrow> 'i \<Rightarrow> int \<Rightarrow> 'i admission_state \<times> admission" where
  "admit cfg st i now =
     (case admit_window cfg (window_of st i) now of (ts', r) \<Rightarrow> (st(i \<mapsto> ts'), r))"

text \<open>
  A sequence of admission checks, each an identity and the clock reading of the call,
  made one after the other; the results in the order of the calls.
\<close>

fun admit_all ::
  "admission_config \<Rightarrow> 'i admission_state \<Rightarrow> ('i \<times> int) list \<Rightarrow>
     'i admission_state \<times> admission list" where
  "admit_all cfg st [] = (st, [])"
| "admit_all cfg st ((i, now) # calls) =
     (case admit cfg st i now of
        (st', r) \<Rightarrow> (case admit_all cfg st' calls of (st'', rs) \<Rightarrow> (st'', r # rs)))"

text \<open>The instants of the calls of identity \<open>i\<close> that were admitted.\<close>

definition admitted_times :: "'i \<Rightarrow> ('i \<times> int) list \<Rightarrow> admission list \<Rightarrow> int list" where
  "admitted_times i calls rs =
     map (\<lambda>(c, r). snd c) (filter (\<lambda>(c, r). fst c = i \<and> r = Allowed) (zip calls rs))"

text \<open>The trailing window of size \<open>W\<close> that ends at \<open>s\<close>, both ends included.\<close>

definition in_window :: "int \<Rightarrow> int \<Rightarrow> int \<Rightarrow> bool" where
  "in_window W s t = (s - W \<le> t \<and> t \<le> s)"

text \<open>
  The invariant behind the window bound. After the calls \<open>calls\<close> with results \<open>rs\<close>:
  for every bound \<open>m\<close> that is at least \<open>now - W\<close> of every call made so far, the stored
  window of an identity and its admitted instants agree on the timestamps from \<open>m\<close> on;
  and no trailing window holds more admitted instants than the limit.
\<close>

definition window_inv ::
  "admission_config \<Rightarrow> ('i \<times> int) list \<Rightarrow> 'i admission_state \<Rightarrow> admission list \<Rightarrow> bool" where
  "window_inv cfg calls st rs =
     (\<forall>i. (\<forall>m. (\<forall>c \<in> set calls. snd c - window_size cfg \<le> m) \<longrightarrow>
              filter (\<lambda>t. m \<le> t) (window_of st i) =
              filter (\<lambda>t. m \<le> t) (admitted_times i calls rs)) \<and>
          (\<forall>s. length (filter (in_window (window_size cfg) s) (admitted_times i calls rs))
                 \<le> limit cfg))"


section \<open>Fingerprint cache (specification, section 4.2)\<close>

text \<open>
  The cache service belongs to the backend as well and is not at hand either. Keys and
  payloads are of any type: the cache is "a generic TTL map keyed by opaque
  fingerprints".
\<close>

text \<open>
  Modelled from the spec: \<open>CacheEntry\<close>, \<open>{ fingerprint, payload, createdAt, expiresAt }\<close>;
  the cache service's entry type is missing.
\<close>

record ('k, 'v) cache_entry =
  fingerprint :: 'k
  payload :: 'v
  createdAt :: int
  expiresAt :: int

type_synonym ('k, 'v) cache = "'k \<rightharpoonup> ('k, 'v) cache_entry"

text \<open>
  Modelled from the spec: the result of \<open>get\<close>, \<open>Hit(payload) | Miss\<close>; the cache service's
  result type is missing.
\<close>

datatype 'v lookup = Hit 'v | Miss

text \<open>
  Modelled from the spec: \<open>put(fingerprint, payload, ttl)\<close> at the instant \<open>now\<close>; the cache
  service's write is missing. The entry is "fully populated", a later write for the same
  fingerprint replaces it, and it expires \<open>ttl\<close> after it was created.
\<close>

definition cache_put :: "('k, 'v) cache \<Rightarrow> 'k \<Rightarrow> 'v \<Rightarrow> int \<Rightarrow> int \<Rightarrow> ('k, 'v) cache" where
  "cache_put c fp p ttl now =
     c(fp \<mapsto> \<lparr>fingerprint = fp, payload = p, createdAt = now, expiresAt = now + ttl\<rparr>)"

text \<open>
  Modelled from the spec: \<open>get(fingerprint)\<close> at the instant \<open>now\<close>; the cache service's
  read is missing. "Entries past \<open>expiresAt\<close> are treated as Miss on read": an entry
  lives for \<open>ttl\<close>, so it is past its expiry from the instant \<open>expiresAt\<close> on. The purge
  that the specification allows but does not require is left out.
\<close>

definition cache_get :: "('k, 'v) cache \<Rightarrow> 'k \<Rightarrow> int \<Rightarrow> 'v lookup" where
  "cache_get c fp now =
     (case c fp of
        None \<Rightarrow> Miss
      | Some e \<Rightarrow> if expiresAt e \<le> now then Miss else Hit (payload e))"


section \<open>Properties of the map panel\<close>

lemma center_prop_cases:
  "center_prop md ul =
     (case chain_map_center md of
        Some c \<Rightarrow> c
      | None \<Rightarrow> (case ul of Some u \<Rightarrow> u | None \<Rightarrow> defaultCenter))"
  by (simp add: center_prop_def js_or_def js_or_default_def split: option.splits)

lemma view_center_GoogleMapDisplay:
  "view_center (GoogleMapDisplay isLoaded loadError md ul) =
     (if isLoaded \<and> \<not> loadError then Some (center_prop md ul) else None)"
  by (simp add: GoogleMapDisplay_def)

lemma update_map_one_place:
  "update_map True True (Some \<lparr>places = Some [p], map_center = mc\<rparr>) =
     [SetCenter (location p), SetZoom 15]"
  by (simp add: update_map_def)

lemma update_map_several_places:
  "update_map True True (Some \<lparr>places = Some (p # q # ps), map_center = mc\<rparr>) =
     [FitBounds (map location (p # q # ps)), CapZoomOnce 16]"
  by (simp add: update_map_def)

lemma GoogleMapDisplay_renders_map:
  "(\<exists>c z. GoogleMapDisplay isLoaded loadError md ul = Inr (GoogleMapView c z)) =
     (isLoaded \<and> \<not> loadError)"
  by (auto simp: GoogleMapDisplay_def)

text \<open>
  Claim C10. The component renders the map exactly when the loader has finished without
  an error, and the \<open>center\<close> of the rendered \<open>GoogleMap\<close> element is then always the value
  of the priority: \<open>mapsData.map_center\<close> when the data and the field are there; else the
  user's location when it is there; else the default, which is latitude 40.7128 and
  longitude -74.0060. With no maps data and no user location it is that default, and
  without maps data the effect makes no call on the map. No other render gives a map:
  with \<open>loadError\<close> it is the error panel, and while the loader has not finished the render
  throws on \<open>Loader2\<close>.
\<close>

theorem GoogleMapDisplay_center_priority:
  "(isLoaded \<and> \<not> loadError \<longrightarrow>
      (\<forall>d m. md = Some d \<and> map_center d = Some m \<longrightarrow>
         view_center (GoogleMapDisplay isLoaded loadError md ul) = Some m) \<and>
      (\<forall>u. chain_map_center md = None \<and> ul = Some u \<longrightarrow>
         view_center (GoogleMapDisplay isLoaded loadError md ul) = Some u) \<and>
      (chain_map_center md = None \<and> ul = None \<longrightarrow>
         view_center (GoogleMapDisplay isLoaded loadError md ul) = Some defaultCenter) \<and>
      view_center (GoogleMapDisplay isLoaded loadError None None) =
         Some \<lparr>lat = 40.7128, lng = - 74.0060\<rparr>) \<and>
   (\<exists>c z. GoogleMapDisplay isLoaded loadError md ul = Inr (GoogleMapView c z)) =
      (isLoaded \<and> \<not> loadError) \<and>
   (\<not> (isLoaded \<and> \<not> loadError) \<longrightarrow>
      view_center (GoogleMapDisplay isLoaded loadError md ul) = None) \<and>
   (\<not> loadError \<and> \<not> isLoaded \<longrightarrow>
      GoogleMapDisplay isLoaded loadError md ul = Inl (ReferenceError ''Loader2'')) \<and>
   defaultCenter = \<lparr>lat = 40.7128, lng = - 74.0060\<rparr> \<and>
   update_map map_present isLoaded None = []"
proof -
  have first: "md = Some d \<and> map_center d = Some m \<Longrightarrow> center_prop md ul = m" for d m
    by (simp add: center_prop_cases chain_map_center_def)
  have second: "chain_map_center md = None \<and> ul = Some u \<Longrightarrow> center_prop md ul = u" for u
    by (simp add: center_prop_cases)
  have third: "chain_map_center md = None \<and> ul = None \<Longrightarrow> center_prop md ul = defaultCenter"
    by (simp add: center_prop_cases)
  have nyc: "center_prop None None = \<lparr>lat = 40.7128, lng = - 74.0060\<rparr>"
    by (simp add: center_prop_cases chain_map_center_def defaultCenter_def)
  have quiet: "update_map map_present isLoaded None = []"
    by (simp add: update_map_def)
  have throws: "\<not> loadError \<and> \<not> isLoaded \<Longrightarrow>
      GoogleMapDisplay isLoaded loadError md ul = Inl (ReferenceError ''Loader2'')"
    by (simp add: GoogleMapDisplay_def)
  from first second third nyc quiet throws show ?thesis
    by (simp add: view_center_GoogleMapDisplay GoogleMapDisplay_renders_map defaultCenter_def)
qed

text \<open>
  Maps data with a centre wins over a user location; without maps data the user location
  is the centre; without both, New York City is. While the loader has not finished, no
  map is rendered.
\<close>

theorem GoogleMapDisplay_center_priority_witness:
  "view_center (GoogleMapDisplay True False
      (Some \<lparr>places = None, map_center = Some \<lparr>lat = 1, lng = 2\<rparr>\<rparr>)
      (Some \<lparr>lat = 3, lng = 4\<rparr>)) = Some \<lparr>lat = 1, lng = 2\<rparr> \<and>
   view_center (GoogleMapDisplay True False None (Some \<lparr>lat = 3, lng = 4\<rparr>)) =
      Some \<lparr>lat = 3, lng = 4\<rparr> \<and>
   view_center (GoogleMapDisplay True False None None) = Some \<lparr>lat = 40.7128, lng = - 74.0060\<rparr> \<and>
   view_center (GoogleMapDisplay False False None None) = None \<and>
   GoogleMapDisplay False False None None = Inl (ReferenceError ''Loader2'')"
proof -
  let ?d = "\<lparr>places = None, map_center = Some \<lparr>lat = 1, lng = 2\<rparr>\<rparr>"
  have none: "chain_map_center None = None"
    by (simp add: chain_map_center_def)
  have a: "view_center (GoogleMapDisplay True False (Some ?d) (Some \<lparr>lat = 3, lng = 4\<rparr>)) =
      Some \<lparr>lat = 1, lng = 2\<rparr>"
    using GoogleMapDisplay_center_priority
      [of True False "Some ?d" "Some \<lparr>lat = 3, lng = 4\<rparr>"] by simp
  have b: "view_center (GoogleMapDisplay True False None (Some \<lparr>lat = 3, lng = 4\<rparr>)) =
      Some \<lparr>lat = 3, lng = 4\<rparr>"
    using GoogleMapDisplay_center_priority [of True False None "Some \<lparr>lat = 3, lng = 4\<rparr>"] none
    by simp
  have c: "view_center (GoogleMapDisplay True False None None) =
      Some \<lparr>lat = 40.7128, lng = - 74.0060\<rparr>"
    using GoogleMapDisplay_center_priority [of True False None None] by blast
  have d: "view_center (GoogleMapDisplay False False None None) = None \<and>
      GoogleMapDisplay False False None None = Inl (ReferenceError ''Loader2'')"
    using GoogleMapDisplay_center_priority [of False False None None] by simp
  from a b c d show ?thesis by blast
qed


section \<open>Properties of the socket hook\<close>

lemma scheduled_delays_append:
  "scheduled_delays (fx @ fx') = scheduled_delays fx @ scheduled_delays fx'"
  by (induction fx rule: scheduled_delays.induct) simp_all

lemma scheduled_delays_on_connect_error:
  "scheduled_delays (snd (on_connect_error s)) =
     (if reconnectAttempts s + 1 \<le> maxReconnectAttempts
      then [2 ^ (reconnectAttempts s + 1) * 1000] else [])"
  by (simp add: on_connect_error_def Let_def)

lemma reconnectAttempts_on_connect_error:
  "reconnectAttempts (fst (on_connect_error s)) = reconnectAttempts s + 1"
  by (simp add: on_connect_error_def Let_def)

lemma backoff_interval_step:
  fixes f :: "nat \<Rightarrow> nat"
  shows "(if c + 1 \<le> m then [f (c + 1)] else []) @ map f [Suc (c + 1)..<Suc (min (c + 1 + k) m)]
         = map f [Suc c..<Suc (min (c + Suc k) m)]"
proof (cases "c + 1 \<le> m")
  case True
  then have "Suc c < Suc (min (c + Suc k) m)" by simp
  then have "[Suc c..<Suc (min (c + Suc k) m)] = Suc c # [Suc (Suc c)..<Suc (min (c + Suc k) m)]"
    by (rule upt_conv_Cons)
  with True show ?thesis by simp
next
  case False
  then show ?thesis by simp
qed

lemma consecutive_errors_delays:
  "scheduled_delays (snd (run_events (replicate k ConnectError) s)) =
     map (\<lambda>n. 2 ^ n * 1000)
       [Suc (reconnectAttempts s)..<Suc (min (reconnectAttempts s + k) maxReconnectAttempts)]"
proof (induction k arbitrary: s)
  case 0
  then show ?case by simp
next
  case (Suc k)
  obtain s' fx where step: "on_connect_error s = (s', fx)" by (cases "on_connect_error s")
  obtain s'' fx' where rest: "run_events (replicate k ConnectError) s' = (s'', fx')"
    by (cases "run_events (replicate k ConnectError) s'")
  have cnt: "reconnectAttempts s' = reconnectAttempts s + 1"
    using reconnectAttempts_on_connect_error [of s] step by simp
  have d1: "scheduled_delays fx =
      (if reconnectAttempts s + 1 \<le> maxReconnectAttempts
       then [2 ^ (reconnectAttempts s + 1) * 1000] else [])"
    using scheduled_delays_on_connect_error [of s] step by simp
  have d2: "scheduled_delays fx' =
      map (\<lambda>n. 2 ^ n * 1000)
        [Suc (reconnectAttempts s + 1)..<
         Suc (min (reconnectAttempts s + 1 + k) maxReconnectAttempts)]"
    using Suc.IH [of s'] rest cnt by simp
  have "scheduled_delays (snd (run_events (replicate (Suc k) ConnectError) s)) =
      scheduled_delays fx @ scheduled_delays fx'"
    using step rest by (simp add: scheduled_delays_append)
  also have "\<dots> = map (\<lambda>n. 2 ^ n * 1000)
      [Suc (reconnectAttempts s)..<Suc (min (reconnectAttempts s + Suc k) maxReconnectAttempts)]"
    unfolding d1 d2 by (rule backoff_interval_step)
  finally show ?case .
qed

text \<open>
  Claim C8. A run of \<open>k\<close> consecutive \<open>connect_error\<close> events that starts with the
  failure count at 0 schedules exactly the reconnects with delays 2^n seconds for
  n = 1 .. min k 5, in that order: at most five of them, 2 s, 4 s, 8 s, 16 s and 32 s.
  From any state, a run of consecutive failures schedules at most five reconnects, and
  in a state whose count has reached 5 a further failure schedules nothing. The
  \<open>connect\<close> handler sets the count to 0 whatever it was, and the hook starts with the
  count at 0, so every run after a successful connect starts there.
\<close>

theorem useSocket_reconnect_backoff:
  "(reconnectAttempts s = 0 \<longrightarrow>
      scheduled_delays (snd (run_events (replicate k ConnectError) s)) =
        map (\<lambda>n. 2 ^ n * 1000) [1..<Suc (min k 5)] \<and>
      length (scheduled_delays (snd (run_events (replicate k ConnectError) s))) \<le> 5 \<and>
      (5 \<le> k \<longrightarrow>
        scheduled_delays (snd (run_events (replicate k ConnectError) s)) =
          [2000, 4000, 8000, 16000, 32000])) \<and>
   length (scheduled_delays (snd (run_events (replicate k ConnectError) t)))
      \<le> maxReconnectAttempts \<and>
   (maxReconnectAttempts \<le> reconnectAttempts t \<longrightarrow>
      scheduled_delays (snd (handle_event ConnectError t)) = []) \<and>
   reconnectAttempts (fst (handle_event Connect t)) = 0 \<and>
   reconnectAttempts initial_socket_state = 0"
proof -
  have "length (scheduled_delays (snd (run_events (replicate k ConnectError) t))) =
      Suc (min (reconnectAttempts t + k) maxReconnectAttempts) - Suc (reconnectAttempts t)"
    by (simp only: consecutive_errors_delays length_map length_upt)
  then have any: "length (scheduled_delays (snd (run_events (replicate k ConnectError) t)))
      \<le> maxReconnectAttempts"
    by arith
  have run: "reconnectAttempts s = 0 \<Longrightarrow>
      scheduled_delays (snd (run_events (replicate k ConnectError) s)) =
        map (\<lambda>n. 2 ^ n * 1000) [1..<Suc (min k 5)]"
    using consecutive_errors_delays [of k s] by (simp add: maxReconnectAttempts_def)
  have "[1..<Suc 5] = [1, 2, 3, 4, 5::nat]"
    by (simp add: upt_conv_Cons)
  then have five: "map (\<lambda>n. 2 ^ n * 1000) [1..<Suc 5] = [2000, 4000, 8000, 16000, 32000::nat]"
    by simp
  have full: "reconnectAttempts s = 0 \<Longrightarrow> 5 \<le> k \<Longrightarrow>
      scheduled_delays (snd (run_events (replicate k ConnectError) s)) =
        [2000, 4000, 8000, 16000, 32000]"
  proof -
    assume zero: "reconnectAttempts s = 0" and k: "5 \<le> k"
    from k have "min k 5 = 5" by simp
    with run [OF zero] five show ?thesis by (simp only:)
  qed
  have stop: "maxReconnectAttempts \<le> reconnectAttempts t \<Longrightarrow>
      scheduled_delays (snd (handle_event ConnectError t)) = []"
    by (simp add: scheduled_delays_on_connect_error)
  have reset: "reconnectAttempts (fst (handle_event Connect t)) = 0"
    by (simp add: on_connect_def)
  have init: "reconnectAttempts initial_socket_state = 0"
    by (simp add: initial_socket_state_def)
  from run full any stop reset init show ?thesis by simp
qed

text \<open>
  Seven failures in a row after a connect: five reconnects are scheduled, none for the
  sixth and the seventh failure.
\<close>

theorem useSocket_reconnect_backoff_witness:
  "reconnectAttempts (fst (handle_event Connect initial_socket_state)) = 0 \<and>
   scheduled_delays (snd (run_events (replicate 7 ConnectError)
       (fst (handle_event Connect initial_socket_state)))) =
     [2000, 4000, 8000, 16000, 32000] \<and>
   maxReconnectAttempts \<le> reconnectAttempts \<lparr>reconnectAttempts = 5, isConnected = False\<rparr> \<and>
   scheduled_delays (snd (handle_event ConnectError \<lparr>reconnectAttempts = 5, isConnected = False\<rparr>))
     = []"
proof -
  let ?s = "fst (handle_event Connect initial_socket_state)"
  let ?t = "\<lparr>reconnectAttempts = 5, isConnected = False\<rparr>"
  note at_run = useSocket_reconnect_backoff [of ?s 7 initial_socket_state]
  note at_full = useSocket_reconnect_backoff [of ?s 7 ?t]
  have zero: "reconnectAttempts ?s = 0"
    using at_run by blast
  have "5 \<le> (7::nat)" by simp
  with zero at_run have run: "scheduled_delays (snd (run_events (replicate 7 ConnectError) ?s)) =
      [2000, 4000, 8000, 16000, 32000]"
    by blast
  have full: "maxReconnectAttempts \<le> reconnectAttempts ?t"
    by (simp add: maxReconnectAttempts_def)
  with at_full have stop: "scheduled_delays (snd (handle_event ConnectError ?t)) = []"
    by blast
  from zero run full stop show ?thesis by blast
qed


section \<open>Properties of the chat panel\<close>

lemma handleSendMessage_cases:
  "handleSendMessage env st =
     (if trim (inputValue st) = [] \<or> env_isPending env then []
      else if \<not> env_socket env \<or> \<not> env_isConnected env
      then onError @ [ConsoleError ''Error sending message:'']
      else [AppendMessage (userMessage env (trim (inputValue st))), SetInputValue [],
            SetIsTyping True, SocketEmit (outgoing env (trim (inputValue st)))])"
  by (simp add: handleSendMessage_def mutateAsync_def mutationFn_def Let_def)

text \<open>
  Claim C9. A send emits on the socket only when the trimmed input is non-empty, no send
  is pending, and the socket is there and connected. When the socket is absent or
  disconnected, \<open>mutationFn\<close> throws and a send leaves the message list, the input and the
  emitted messages as they were. An accepted send does exactly four things in this order:
  it appends one user message whose content is the trimmed input, clears the input,
  sets the typing flag, and emits the trimmed input on the socket.
\<close>

theorem handleSendMessage_guarded:
  "((\<exists>fx \<in> set (handleSendMessage env st). is_emit fx) \<longrightarrow>
      trim (inputValue st) \<noteq> [] \<and> \<not> env_isPending env \<and> env_socket env \<and> env_isConnected env) \<and>
   (\<not> env_socket env \<or> \<not> env_isConnected env \<longrightarrow>
      mutationFn env m = Inl ''Not connected to server'' \<and>
      messages (send env st) = messages st \<and>
      inputValue (send env st) = inputValue st \<and>
      emitted (send env st) = emitted st) \<and>
   (trim (inputValue st) \<noteq> [] \<and> \<not> env_isPending env \<and> env_socket env \<and> env_isConnected env \<longrightarrow>
      handleSendMessage env st =
        [AppendMessage (userMessage env (trim (inputValue st))), SetInputValue [],
         SetIsTyping True, SocketEmit (outgoing env (trim (inputValue st)))] \<and>
      messages (send env st) = messages st @ [userMessage env (trim (inputValue st))] \<and>
      msg_role (userMessage env (trim (inputValue st))) = User \<and>
      msg_content (userMessage env (trim (inputValue st))) = trim (inputValue st) \<and>
      inputValue (send env st) = [] \<and>
      emitted (send env st) = emitted st @ [outgoing env (trim (inputValue st))] \<and>
      payload_message (outgoing env (trim (inputValue st))) = trim (inputValue st))"
proof -
  have emit_only: "(\<exists>fx \<in> set (handleSendMessage env st). is_emit fx) \<Longrightarrow>
      trim (inputValue st) \<noteq> [] \<and> \<not> env_isPending env \<and> env_socket env \<and> env_isConnected env"
    by (auto simp: handleSendMessage_cases onError_def split: if_splits)
  have throws: "\<not> env_socket env \<or> \<not> env_isConnected env \<Longrightarrow>
      mutationFn env m = Inl ''Not connected to server''"
    by (auto simp: mutationFn_def)
  have unchanged: "\<not> env_socket env \<or> \<not> env_isConnected env \<Longrightarrow>
      messages (send env st) = messages st \<and> inputValue (send env st) = inputValue st \<and>
      emitted (send env st) = emitted st"
    by (auto simp: send_def handleSendMessage_cases onError_def)
  have accepted: "trim (inputValue st) \<noteq> [] \<and> \<not> env_isPending env \<and> env_socket env \<and>
      env_isConnected env \<Longrightarrow>
      handleSendMessage env st =
        [AppendMessage (userMessage env (trim (inputValue st))), SetInputValue [],
         SetIsTyping True, SocketEmit (outgoing env (trim (inputValue st)))]"
    by (simp add: handleSendMessage_cases)
  have result: "trim (inputValue st) \<noteq> [] \<and> \<not> env_isPending env \<and> env_socket env \<and>
      env_isConnected env \<Longrightarrow>
      messages (send env st) = messages st @ [userMessage env (trim (inputValue st))] \<and>
      inputValue (send env st) = [] \<and>
      emitted (send env st) = emitted st @ [outgoing env (trim (inputValue st))]"
    by (simp add: send_def handleSendMessage_cases)
  have fields: "msg_role (userMessage env (trim (inputValue st))) = User \<and>
      msg_content (userMessage env (trim (inputValue st))) = trim (inputValue st) \<and>
      payload_message (outgoing env (trim (inputValue st))) = trim (inputValue st)"
    by (simp add: userMessage_def outgoing_def)
  from emit_only throws unchanged accepted result fields show ?thesis by blast
qed

text \<open>
  The input \<open>" hi "\<close> (code units 32, 104, 105, 32): with the socket connected the send
  appends the user message \<open>"hi"\<close>, clears the input and emits \<open>"hi"\<close>; with the socket
  disconnected nothing of the three changes.
\<close>

theorem handleSendMessage_guarded_witness:
  "trim [32, 104, 105, 32] = [104, 105] \<and>
   (\<exists>fx \<in> set (handleSendMessage
      \<lparr>env_socket = True, env_isConnected = True, env_isPending = False,
       env_conversationId = [99], env_userLocation = None, env_now = 1700000000000,
       env_iso = [50]\<rparr>
      \<lparr>messages = [], inputValue = [32, 104, 105, 32], isTyping = False, emitted = []\<rparr>).
      is_emit fx) \<and>
   messages (send
      \<lparr>env_socket = True, env_isConnected = True, env_isPending = False,
       env_conversationId = [99], env_userLocation = None, env_now = 1700000000000,
       env_iso = [50]\<rparr>
      \<lparr>messages = [], inputValue = [32, 104, 105, 32], isTyping = False, emitted = []\<rparr>) =
     [\<lparr>msg_id = 1700000000000, msg_content = [104, 105], msg_role = User,
       msg_timestamp = [50], msg_mapsData = None\<rparr>] \<and>
   inputValue (send
      \<lparr>env_socket = True, env_isConnected = True, env_isPending = False,
       env_conversationId = [99], env_userLocation = None, env_now = 1700000000000,
       env_iso = [50]\<rparr>
      \<lparr>messages = [], inputValue = [32, 104, 105, 32], isTyping = False, emitted = []\<rparr>) = [] \<and>
   emitted (send
      \<lparr>env_socket = True, env_isConnected = True, env_isPending = False,
       env_conversationId = [99], env_userLocation = None, env_now = 1700000000000,
       env_iso = [50]\<rparr>
      \<lparr>messages = [], inputValue = [32, 104, 105, 32], isTyping = False, emitted = []\<rparr>) =
     [\<lparr>payload_message = [104, 105], payload_conversation_id = [99],
       payload_user_id = ''user_123'', payload_location = None\<rparr>] \<and>
   messages (send
      \<lparr>env_socket = True, env_isConnected = False, env_isPending = False,
       env_conversationId = [99], env_userLocation = None, env_now = 1700000000000,
       env_iso = [50]\<rparr>
      \<lparr>messages = [], inputValue = [32, 104, 105, 32], isTyping = False, emitted = []\<rparr>) = [] \<and>
   inputValue (send
      \<lparr>env_socket = True, env_isConnected = False, env_isPending = False,
       env_conversationId = [99], env_userLocation = None, env_now = 1700000000000,
       env_iso = [50]\<rparr>
      \<lparr>messages = [], inputValue = [32, 104, 105, 32], isTyping = False, emitted = []\<rparr>) =
     [32, 104, 105, 32] \<and>
   emitted (send
      \<lparr>env_socket = True, env_isConnected = False, env_isPending = False,
       env_conversationId = [99], env_userLocation = None, env_now = 1700000000000,
       env_iso = [50]\<rparr>
      \<lparr>messages = [], inputValue = [32, 104, 105, 32], isTyping = False, emitted = []\<rparr>) = []"
proof -
  let ?on = "\<lparr>env_socket = True, env_isConnected = True, env_isPending = False,
       env_conversationId = [99], env_userLocation = None, env_now = 1700000000000,
       env_iso = [50]\<rparr>"
  let ?off = "\<lparr>env_socket = True, env_isConnected = False, env_isPending = False,
       env_conversationId = [99], env_userLocation = None, env_now = 1700000000000,
       env_iso = [50]\<rparr>"
  let ?st = "\<lparr>messages = [], inputValue = [32, 104, 105, 32], isTyping = False, emitted = []\<rparr>"
  have t: "trim [32, 104, 105, 32] = [104, 105]"
    by (simp add: trim_def is_trim_space_def)
  have "handleSendMessage ?on ?st =
      [AppendMessage (userMessage ?on [104, 105]), SetInputValue [], SetIsTyping True,
       SocketEmit (outgoing ?on [104, 105])]"
    using handleSendMessage_guarded [of ?on ?st] t by simp
  then have emits: "\<exists>fx \<in> set (handleSendMessage ?on ?st). is_emit fx"
    by simp
  have on: "messages (send ?on ?st) = [userMessage ?on [104, 105]] \<and>
      inputValue (send ?on ?st) = [] \<and> emitted (send ?on ?st) = [outgoing ?on [104, 105]]"
    using handleSendMessage_guarded [of ?on ?st] t by simp
  have off: "messages (send ?off ?st) = [] \<and> inputValue (send ?off ?st) = [32, 104, 105, 32] \<and>
      emitted (send ?off ?st) = []"
    using handleSendMessage_guarded [of ?off ?st] by simp
  from t emits on off show ?thesis
    by (simp add: userMessage_def outgoing_def)
qed

section \<open>Properties of the admission control\<close>

lemma length_admit_all: "length (snd (admit_all cfg st calls)) = length calls"
  by (induction cfg st calls rule: admit_all.induct) (auto split: prod.splits)

lemma admit_all_snoc:
  "admit_all cfg st (calls @ [(i, now)]) =
     (case admit_all cfg st calls of
        (st', rs) \<Rightarrow> (case admit cfg st' i now of (st'', r) \<Rightarrow> (st'', rs @ [r])))"
  by (induction cfg st calls rule: admit_all.induct) (auto split: prod.splits)

lemma admitted_times_snoc:
  "length rs = length calls \<Longrightarrow>
   admitted_times i (calls @ [(j, now)]) (rs @ [r]) =
     admitted_times i calls rs @ (if j = i \<and> r = Allowed then [now] else [])"
  by (simp add: admitted_times_def)

lemma length_filter_mono:
  "(\<And>x. x \<in> set xs \<Longrightarrow> P x \<Longrightarrow> Q x) \<Longrightarrow> length (filter P xs) \<le> length (filter Q xs)"
  by (induction xs) auto

lemma filter_prune:
  "now - W \<le> m \<Longrightarrow> filter (\<lambda>t. m \<le> t) (prune W now ts) = filter (\<lambda>t. m \<le> t) ts"
  unfolding prune_def filter_filter by (rule filter_cong) auto

lemma window_inv_empty: "window_inv cfg [] Map.empty []"
  by (simp add: window_inv_def window_of_def admitted_times_def)

lemma window_inv_step:
  assumes inv: "window_inv cfg calls st rs"
    and len: "length rs = length calls"
    and mono: "\<forall>c \<in> set calls. snd c \<le> now"
    and step: "admit cfg st j now = (st', r)"
  shows "window_inv cfg (calls @ [(j, now)]) st' (rs @ [r])"
proof -
  let ?W = "window_size cfg"
  let ?kept = "prune ?W now (window_of st j)"
  have snoc: "admitted_times i (calls @ [(j, now)]) (rs @ [r]) =
      admitted_times i calls rs @ (if j = i \<and> r = Allowed then [now] else [])" for i
    using len by (rule admitted_times_snoc)
  have old1: "(\<forall>c \<in> set calls. snd c - ?W \<le> m) \<Longrightarrow>
      filter (\<lambda>t. m \<le> t) (window_of st i) = filter (\<lambda>t. m \<le> t) (admitted_times i calls rs)" for i m
    using inv by (simp add: window_inv_def)
  have old2: "length (filter (in_window ?W s) (admitted_times i calls rs)) \<le> limit cfg" for i s
    using inv by (simp add: window_inv_def)
  have below: "\<forall>c \<in> set calls. snd c - ?W \<le> now - ?W"
    using mono by auto
  have kept_eq: "?kept = filter (\<lambda>t. now - ?W \<le> t) (admitted_times j calls rs)"
    using old1 [OF below, of j] by (simp add: prune_def)
  have st': "st' = st(j \<mapsto> fst (admit_window cfg (window_of st j) now))"
    and r: "r = snd (admit_window cfg (window_of st j) now)"
    using step by (auto simp: admit_def split: prod.splits)
  have other: "window_of st' i = window_of st i" if "i \<noteq> j" for i
    using that st' by (simp add: window_of_def)
  show ?thesis
  proof (cases "length ?kept < limit cfg")
    case True
    then have rA: "r = Allowed" and wj: "window_of st' j = ?kept @ [now]"
      using st' r by (simp_all add: admit_window_def Let_def window_of_def)
    have p1: "filter (\<lambda>t. m \<le> t) (window_of st' i) =
        filter (\<lambda>t. m \<le> t) (admitted_times i (calls @ [(j, now)]) (rs @ [r]))"
      if m: "\<forall>c \<in> set (calls @ [(j, now)]). snd c - ?W \<le> m" for i m
    proof (cases "i = j")
      case True
      from m have m1: "\<forall>c \<in> set calls. snd c - ?W \<le> m" and m2: "now - ?W \<le> m" by auto
      have "filter (\<lambda>t. m \<le> t) ?kept = filter (\<lambda>t. m \<le> t) (admitted_times j calls rs)"
        using filter_prune [OF m2] old1 [OF m1, of j] by simp
      then show ?thesis using True wj rA snoc [of j] by simp
    next
      case False
      from m have m1: "\<forall>c \<in> set calls. snd c - ?W \<le> m" by auto
      show ?thesis using False other [OF False] old1 [OF m1, of i] snoc [of i] by simp
    qed
    have p2: "length (filter (in_window ?W s) (admitted_times i (calls @ [(j, now)]) (rs @ [r])))
        \<le> limit cfg" for i s
    proof (cases "i = j \<and> in_window ?W s now")
      case True
      have "length (filter (in_window ?W s) (admitted_times j calls rs)) \<le> length ?kept"
        unfolding kept_eq using True by (intro length_filter_mono) (auto simp: in_window_def)
      then show ?thesis using True rA snoc [of j] \<open>length ?kept < limit cfg\<close> by simp
    next
      case False
      then show ?thesis using old2 [of s i] snoc [of i] by auto
    qed
    from p1 p2 show ?thesis unfolding window_inv_def by blast
  next
    case False
    then have rR: "r \<noteq> Allowed" and wj: "window_of st' j = ?kept"
      using st' r by (simp_all add: admit_window_def Let_def window_of_def)
    have same: "admitted_times i (calls @ [(j, now)]) (rs @ [r]) = admitted_times i calls rs" for i
      using snoc [of i] rR by simp
    have p1: "filter (\<lambda>t. m \<le> t) (window_of st' i) =
        filter (\<lambda>t. m \<le> t) (admitted_times i (calls @ [(j, now)]) (rs @ [r]))"
      if m: "\<forall>c \<in> set (calls @ [(j, now)]). snd c - ?W \<le> m" for i m
    proof (cases "i = j")
      case True
      from m have m1: "\<forall>c \<in> set calls. snd c - ?W \<le> m" and m2: "now - ?W \<le> m" by auto
      have "filter (\<lambda>t. m \<le> t) ?kept = filter (\<lambda>t. m \<le> t) (admitted_times j calls rs)"
        using filter_prune [OF m2] old1 [OF m1, of j] by simp
      then show ?thesis using True wj same by simp
    next
      case False
      from m have m1: "\<forall>c \<in> set calls. snd c - ?W \<le> m" by auto
      show ?thesis using other [OF False] old1 [OF m1, of i] same by simp
    qed
    have p2: "length (filter (in_window ?W s) (admitted_times i (calls @ [(j, now)]) (rs @ [r])))
        \<le> limit cfg" for i s
      using old2 [of s i] same by simp
    from p1 p2 show ?thesis unfolding window_inv_def by blast
  qed
qed

lemma window_inv_admit_all:
  "sorted (map snd calls) \<Longrightarrow>
   window_inv cfg calls (fst (admit_all cfg Map.empty calls)) (snd (admit_all cfg Map.empty calls))"
proof (induction calls rule: rev_induct)
  case Nil
  then show ?case by (simp add: window_inv_empty)
next
  case (snoc c calls)
  obtain j now where c: "c = (j, now)" by (cases c)
  obtain st rs where run: "admit_all cfg Map.empty calls = (st, rs)"
    by (cases "admit_all cfg Map.empty calls")
  obtain st' r where step: "admit cfg st j now = (st', r)" by (cases "admit cfg st j now")
  from snoc.prems have sorted: "sorted (map snd calls)" and mono: "\<forall>c \<in> set calls. snd c \<le> now"
    by (auto simp: c sorted_append)
  have len: "length rs = length calls"
    using length_admit_all [of cfg Map.empty calls] run by simp
  have "window_inv cfg calls st rs" using snoc.IH [OF sorted] run by simp
  then have "window_inv cfg (calls @ [(j, now)]) st' (rs @ [r])"
    using len mono step by (rule window_inv_step)
  then show ?case using c run step by (simp add: admit_all_snoc)
qed

lemma window_bound:
  "sorted (map snd calls) \<Longrightarrow>
   length (filter (in_window (window_size cfg) s)
     (admitted_times i calls (snd (admit_all cfg Map.empty calls)))) \<le> limit cfg"
  using window_inv_admit_all [of calls cfg] unfolding window_inv_def by blast


lemma oldest_Min:
  assumes "ts \<noteq> []"
  shows "oldest ts = Some (Min (set ts))"
proof (cases ts)
  case Nil
  with assms show ?thesis by simp
next
  case (Cons t rest)
  then show ?thesis using Min.set_eq_fold [of t rest] by simp
qed

lemma set_prune: "set (prune W now ts) = {t \<in> set ts. \<not> t < now - W}"
  by (auto simp: prune_def)

lemma admit_result:
  "snd (admit cfg st i now) =
     (if length (prune (window_size cfg) now (window_of st i)) < limit cfg then Allowed
      else Rejected (retryAfter (window_size cfg) now (prune (window_size cfg) now (window_of st i))))"
  by (simp add: admit_def admit_window_def Let_def split: prod.splits)

lemma admit_window_of:
  "window_of (fst (admit cfg st i now)) i' =
     (if i' \<noteq> i then window_of st i'
      else if length (prune (window_size cfg) now (window_of st i)) < limit cfg
      then prune (window_size cfg) now (window_of st i) @ [now]
      else prune (window_size cfg) now (window_of st i))"
  by (simp add: admit_def admit_window_def Let_def window_of_def split: prod.splits)

lemma admitted_times_Cons:
  "admitted_times i ((j, now) # calls) (r # rs) =
     (if j = i \<and> r = Allowed then [now] else []) @ admitted_times i calls rs"
  by (simp add: admitted_times_def)

lemma admitted_times_Nil: "admitted_times i [] rs = []"
  by (simp add: admitted_times_def)

lemma snd_admit_all_Cons:
  "snd (admit_all cfg st ((j, now) # calls)) =
     snd (admit cfg st j now) # snd (admit_all cfg (fst (admit cfg st j now)) calls)"
  by (simp add: case_prod_beta)

lemma admit_same_window:
  assumes "window_of st i = window_of st' i"
  shows "snd (admit cfg st i now) = snd (admit cfg st' i now)"
    and "window_of (fst (admit cfg st i now)) i = window_of (fst (admit cfg st' i now)) i"
  using assms by (simp_all add: admit_result admit_window_of)

lemma admitted_times_own_calls:
  "window_of st i = window_of st' i \<Longrightarrow>
   admitted_times i calls (snd (admit_all cfg st calls)) =
   admitted_times i (filter (\<lambda>c. fst c = i) calls)
     (snd (admit_all cfg st' (filter (\<lambda>c. fst c = i) calls)))"
proof (induction calls arbitrary: st st')
  case Nil
  then show ?case by (simp add: admitted_times_Nil)
next
  case (Cons c calls)
  obtain j now where c: "c = (j, now)" by (cases c)
  show ?case
  proof (cases "j = i")
    case True
    have r: "snd (admit cfg st i now) = snd (admit cfg st' i now)"
      and w: "window_of (fst (admit cfg st i now)) i = window_of (fst (admit cfg st' i now)) i"
      using admit_same_window [OF Cons.prems] by simp_all
    have "admitted_times i calls (snd (admit_all cfg (fst (admit cfg st i now)) calls)) =
        admitted_times i (filter (\<lambda>c. fst c = i) calls)
          (snd (admit_all cfg (fst (admit cfg st' i now)) (filter (\<lambda>c. fst c = i) calls)))"
      using Cons.IH [OF w] .
    then show ?thesis
      using True c r by (simp add: snd_admit_all_Cons admitted_times_Cons del: admit_all.simps)
  next
    case False
    have w: "window_of (fst (admit cfg st j now)) i = window_of st' i"
      using False Cons.prems by (simp add: admit_window_of)
    have "admitted_times i calls (snd (admit_all cfg (fst (admit cfg st j now)) calls)) =
        admitted_times i (filter (\<lambda>c. fst c = i) calls)
          (snd (admit_all cfg st' (filter (\<lambda>c. fst c = i) calls)))"
      using Cons.IH [OF w] .
    then show ?thesis
      using False c by (simp add: snd_admit_all_Cons admitted_times_Cons del: admit_all.simps)
  qed
qed

lemma window_bound_own_clock:
  assumes "sorted (map snd (filter (\<lambda>c. fst c = i) calls))"
  shows "length (filter (in_window (window_size cfg) s)
     (admitted_times i calls (snd (admit_all cfg Map.empty calls)))) \<le> limit cfg"
proof -
  have "admitted_times i calls (snd (admit_all cfg Map.empty calls)) =
      admitted_times i (filter (\<lambda>c. fst c = i) calls)
        (snd (admit_all cfg Map.empty (filter (\<lambda>c. fst c = i) calls)))"
    by (rule admitted_times_own_calls) simp
  then show ?thesis using window_bound [OF assms, of cfg s i] by simp
qed

lemma five_in_one_second:
  fixes t1 t2 t3 t4 t5 :: int
  assumes "t1 \<le> t2" "t2 \<le> t3" "t3 \<le> t4" "t4 \<le> t5" "t5 \<le> t1 + 1000"
  shows "snd (admit_all \<lparr>window_size = 60000, limit = 3\<rparr> Map.empty
           [(u, t1), (u, t2), (u, t3), (u, t4), (u, t5)]) =
         [Allowed, Allowed, Allowed,
          Rejected (Some (t1 + 60000 - t4)), Rejected (Some (t1 + 60000 - t5))]"
  using assms
  by (simp add: admit_def admit_window_def window_of_def prune_def retryAfter_def Let_def)

text \<open>
  Claim C2, amended. As written, the claim is about every sequence of admission checks.
  The bound needs the clock readings of an identity's own calls not to decrease along
  the sequence (the readings of other identities do not matter); the counterexample
  below has a call whose reading lies before the one of the call before it. With that,
  starting with no window at all, for every instant \<open>s\<close> the window from \<open>s - W\<close> to \<open>s\<close>
  holds at most \<open>L\<close> admitted calls of the identity. The rest of the claim holds as
  written. Each call keeps exactly the timestamps that are not older than \<open>now - W\<close>; it
  returns Allowed exactly when fewer than \<open>L\<close> remain, and then records \<open>now\<close> after them;
  when it returns Rejected it records nothing and \<open>retryAfter\<close> is the time until the
  least remaining timestamp leaves the window. Five calls of one identity within one
  second (1000 ms) under \<open>L = 3\<close> and \<open>W = 60\<close> s: the first three are Allowed, the last two
  Rejected with a \<open>retryAfter\<close> between 59 s and 60 s.
\<close>

theorem admission_sliding_window:
  "(sorted (map snd (filter (\<lambda>c. fst c = i) calls)) \<longrightarrow>
      length (filter (in_window (window_size cfg) s)
        (admitted_times i calls (snd (admit_all cfg Map.empty calls)))) \<le> limit cfg) \<and>
   set (prune (window_size cfg) now (window_of st i)) =
      {t \<in> set (window_of st i). \<not> t < now - window_size cfg} \<and>
   (snd (admit cfg st i now) = Allowed) =
      (length (prune (window_size cfg) now (window_of st i)) < limit cfg) \<and>
   (snd (admit cfg st i now) = Allowed \<longrightarrow>
      window_of (fst (admit cfg st i now)) i =
        prune (window_size cfg) now (window_of st i) @ [now]) \<and>
   (\<forall>ra. snd (admit cfg st i now) = Rejected ra \<longrightarrow>
      window_of (fst (admit cfg st i now)) i = prune (window_size cfg) now (window_of st i) \<and>
      ra = retryAfter (window_size cfg) now (prune (window_size cfg) now (window_of st i)) \<and>
      (prune (window_size cfg) now (window_of st i) \<noteq> [] \<longrightarrow>
         ra = Some (Min (set (prune (window_size cfg) now (window_of st i)))
                    + window_size cfg - now))) \<and>
   (t1 \<le> t2 \<and> t2 \<le> t3 \<and> t3 \<le> t4 \<and> t4 \<le> t5 \<and> t5 \<le> t1 + 1000 \<longrightarrow>
      snd (admit_all \<lparr>window_size = 60000, limit = 3\<rparr> Map.empty
             [(u, t1), (u, t2), (u, t3), (u, t4), (u, t5)]) =
        [Allowed, Allowed, Allowed,
         Rejected (Some (t1 + 60000 - t4)), Rejected (Some (t1 + 60000 - t5))] \<and>
      59000 \<le> t1 + 60000 - t5 \<and> t1 + 60000 - t5 \<le> t1 + 60000 - t4 \<and>
      t1 + 60000 - t4 \<le> 60000)"
proof -
  let ?kept = "prune (window_size cfg) now (window_of st i)"
  have bound: "sorted (map snd (filter (\<lambda>c. fst c = i) calls)) \<Longrightarrow>
      length (filter (in_window (window_size cfg) s)
        (admitted_times i calls (snd (admit_all cfg Map.empty calls)))) \<le> limit cfg"
    by (rule window_bound_own_clock)
  have pruned: "set ?kept = {t \<in> set (window_of st i). \<not> t < now - window_size cfg}"
    by (rule set_prune)
  have allowed_iff: "(snd (admit cfg st i now) = Allowed) = (length ?kept < limit cfg)"
    by (simp add: admit_result)
  have allowed: "snd (admit cfg st i now) = Allowed \<Longrightarrow>
      window_of (fst (admit cfg st i now)) i = ?kept @ [now]"
    using allowed_iff by (simp add: admit_window_of)
  have rejected: "snd (admit cfg st i now) = Rejected ra \<Longrightarrow>
      window_of (fst (admit cfg st i now)) i = ?kept \<and>
      ra = retryAfter (window_size cfg) now ?kept" for ra
    by (simp add: admit_result admit_window_of split: if_splits)
  have oldest: "snd (admit cfg st i now) = Rejected ra \<Longrightarrow> ?kept \<noteq> [] \<Longrightarrow>
      ra = Some (Min (set ?kept) + window_size cfg - now)" for ra
    using rejected [of ra] by (simp add: retryAfter_def oldest_Min)
  have scenario: "t1 \<le> t2 \<and> t2 \<le> t3 \<and> t3 \<le> t4 \<and> t4 \<le> t5 \<and> t5 \<le> t1 + 1000 \<Longrightarrow>
      snd (admit_all \<lparr>window_size = 60000, limit = 3\<rparr> Map.empty
             [(u, t1), (u, t2), (u, t3), (u, t4), (u, t5)]) =
        [Allowed, Allowed, Allowed,
         Rejected (Some (t1 + 60000 - t4)), Rejected (Some (t1 + 60000 - t5))]"
    using five_in_one_second [of t1 t2 t3 t4 t5 u] by blast
  have near: "t1 \<le> t2 \<and> t2 \<le> t3 \<and> t3 \<le> t4 \<and> t4 \<le> t5 \<and> t5 \<le> t1 + 1000 \<Longrightarrow>
      59000 \<le> t1 + 60000 - t5 \<and> t1 + 60000 - t5 \<le> t1 + 60000 - t4 \<and>
      t1 + 60000 - t4 \<le> 60000"
    by arith
  from bound pruned allowed_iff allowed rejected oldest scenario near show ?thesis
    by blast
qed

text \<open>
  Identity \<open>u1\<close> calls at 0, 200, 400, 600 and 800 ms: three Allowed, then Rejected with
  59.4 s and 59.2 s to wait. The first call is recorded; the fourth, on the window
  0, 200, 400, records nothing. With the calls of \<open>u2\<close> at 900 and then at 100 in between,
  the readings of \<open>u1\<close> alone still do not decrease, and the window of \<open>u1\<close> that ends at
  800 ms holds at most three admitted calls.
\<close>

theorem admission_sliding_window_witness:
  "sorted (map snd (filter (\<lambda>c. fst c = ''u1'')
      [(''u1'', 0), (''u2'', 900), (''u1'', 200), (''u2'', 100), (''u1'', 400::int)])) \<and>
   \<not> sorted (map snd
      [(''u1'', 0), (''u2'', 900), (''u1'', 200), (''u2'', 100), (''u1'', 400::int)]) \<and>
   length (filter (in_window 60000 800)
     (admitted_times ''u1'' [(''u1'', 0), (''u2'', 900), (''u1'', 200), (''u2'', 100), (''u1'', 400)]
        (snd (admit_all \<lparr>window_size = 60000, limit = 3\<rparr> Map.empty
           [(''u1'', 0), (''u2'', 900), (''u1'', 200), (''u2'', 100), (''u1'', 400)])))) \<le> 3 \<and>
   snd (admit_all \<lparr>window_size = 60000, limit = 3\<rparr> Map.empty
          [(''u1'', 0), (''u1'', 200), (''u1'', 400), (''u1'', 600), (''u1'', 800)]) =
     [Allowed, Allowed, Allowed, Rejected (Some 59400), Rejected (Some 59200)] \<and>
   snd (admit \<lparr>window_size = 60000, limit = 3\<rparr> Map.empty ''u1'' 0) = Allowed \<and>
   window_of (fst (admit \<lparr>window_size = 60000, limit = 3\<rparr> Map.empty ''u1'' 0)) ''u1'' = [0] \<and>
   snd (admit \<lparr>window_size = 60000, limit = 3\<rparr> [''u1'' \<mapsto> [0, 200, 400]] ''u1'' 600) =
     Rejected (Some 59400) \<and>
   window_of (fst (admit \<lparr>window_size = 60000, limit = 3\<rparr> [''u1'' \<mapsto> [0, 200, 400]] ''u1'' 600))
     ''u1'' = [0, 200, 400]"
proof -
  let ?calls = "[(''u1'', 0), (''u2'', 900), (''u1'', 200), (''u2'', 100), (''u1'', 400::int)]"
  let ?five = "[(''u1'', 0), (''u1'', 200), (''u1'', 400), (''u1'', 600), (''u1'', 800::int)]"
  let ?cfg = "\<lparr>window_size = 60000, limit = 3\<rparr>"
  let ?full = "[''u1'' \<mapsto> [0, 200, 400::int]]"
  note first = admission_sliding_window
    [of "''u1''" ?calls ?cfg 800 0 Map.empty 0 200 400 600 800 "''u1''"]
  note fourth = admission_sliding_window
    [of "''u1''" ?calls ?cfg 800 600 ?full 0 200 400 600 800 "''u1''"]
  have srt: "sorted (map snd (filter (\<lambda>c. fst c = ''u1'') ?calls))" by simp
  have mixed: "\<not> sorted (map snd ?calls)" by simp
  have ord: "(0::int) \<le> 200 \<and> (200::int) \<le> 400 \<and> (400::int) \<le> 600 \<and> (600::int) \<le> 800 \<and>
      (800::int) \<le> 0 + 1000"
    by simp
  from first ord have res: "snd (admit_all ?cfg Map.empty ?five) =
      [Allowed, Allowed, Allowed, Rejected (Some (0 + 60000 - 600)), Rejected (Some (0 + 60000 - 800))]"
    by blast
  from first srt have cnt: "length (filter (in_window (window_size ?cfg) 800)
      (admitted_times ''u1'' ?calls (snd (admit_all ?cfg Map.empty ?calls)))) \<le> limit ?cfg"
    by blast
  have yes: "snd (admit ?cfg Map.empty ''u1'' 0) = Allowed"
    by (simp add: admit_def admit_window_def window_of_def prune_def)
  with first have rec: "window_of (fst (admit ?cfg Map.empty ''u1'' 0)) ''u1'' =
      prune (window_size ?cfg) 0 (window_of Map.empty ''u1'') @ [0]"
    by blast
  have no: "snd (admit ?cfg ?full ''u1'' 600) = Rejected (Some 59400)"
    by (simp add: admit_def admit_window_def window_of_def prune_def retryAfter_def)
  with fourth have keep: "window_of (fst (admit ?cfg ?full ''u1'' 600)) ''u1'' =
      prune (window_size ?cfg) 600 (window_of ?full ''u1'')"
    by blast
  from srt mixed res cnt yes rec no keep show ?thesis
    by (simp add: window_of_def prune_def)
qed

text \<open>
  The counterexample to claim C2 as written. Under \<open>L = 3\<close> and \<open>W = 60\<close> s, identity \<open>u1\<close>
  calls with the readings 0, 1, 2, 60003 and then 60000 ms. The call at 60003 prunes the
  first three timestamps, so the call that reads 60000 finds one timestamp and is
  admitted: all five calls are Allowed, and the window from 0 to 60000 holds the four
  admitted calls at 0, 1, 2 and 60000, one more than the limit.
\<close>

theorem admission_sliding_window_counterexample:
  "snd (admit_all \<lparr>window_size = 60000, limit = 3\<rparr> Map.empty
          [(''u1'', 0), (''u1'', 1), (''u1'', 2), (''u1'', 60003), (''u1'', 60000)]) =
     [Allowed, Allowed, Allowed, Allowed, Allowed] \<and>
   filter (in_window 60000 60000)
     (admitted_times ''u1'' [(''u1'', 0), (''u1'', 1), (''u1'', 2), (''u1'', 60003), (''u1'', 60000)]
        (snd (admit_all \<lparr>window_size = 60000, limit = 3\<rparr> Map.empty
           [(''u1'', 0), (''u1'', 1), (''u1'', 2), (''u1'', 60003), (''u1'', 60000)]))) =
     [0, 1, 2, 60000] \<and>
   \<not> length [0, 1, 2, 60000 :: int] \<le> limit \<lparr>window_size = 60000, limit = 3\<rparr>"
proof -
  have res: "snd (admit_all \<lparr>window_size = 60000, limit = 3\<rparr> Map.empty
          [(''u1'', 0), (''u1'', 1), (''u1'', 2), (''u1'', 60003), (''u1'', 60000)]) =
     [Allowed, Allowed, Allowed, Allowed, Allowed]"
    by (simp add: admit_def admit_window_def window_of_def prune_def retryAfter_def Let_def)
  show ?thesis unfolding res
    by (simp add: admitted_times_def in_window_def)
qed


section \<open>Properties of the fingerprint cache\<close>

text \<open>
  Claim C3. A \<open>put\<close> of a payload with time to live \<open>ttl\<close> at the instant \<open>now\<close>, followed by
  a \<open>get\<close> of the same fingerprint at the instant \<open>t\<close>: before \<open>ttl\<close> has elapsed
  (\<open>t < now + ttl\<close>) the \<open>get\<close> is a Hit with that payload, whatever the cache held before;
  once \<open>ttl\<close> has elapsed (\<open>now + ttl \<le> t\<close>) it is a Miss.
\<close>

theorem cache_put_get:
  "(t < now + ttl \<longrightarrow> cache_get (cache_put c fp p ttl now) fp t = Hit p) \<and>
   (now + ttl \<le> t \<longrightarrow> cache_get (cache_put c fp p ttl now) fp t = Miss)"
  by (simp add: cache_get_def cache_put_def)

text \<open>A payload stored at 1000 for 300: a Hit at 1299, a Miss at 1300.\<close>

theorem cache_put_get_witness:
  "cache_get (cache_put Map.empty ''k'' ''v'' 300 1000) ''k'' 1299 = Hit ''v'' \<and>
   cache_get (cache_put Map.empty ''k'' ''v'' 300 1000) ''k'' 1300 = Miss"
  using cache_put_get [of 1299 1000 300 Map.empty "''k''" "''v''"]
        cache_put_get [of 1300 1000 300 Map.empty "''k''" "''v''"]
  by simp

end
